theory Spec2Isabelle
  imports Main "HOL-Library.Word"
begin

unbundle bit_operations_syntax

section \<open>MaixCamReceiver: the serial frame receiver of src/main.py\<close>

text \<open>
  The receiver reads a framed binary protocol from a serial port in a background loop
  (\<open>_read_loop\<close>), checks each frame (length, trailer, CRC-8) and stores the decoded
  record in a one-place slot that \<open>get_latest_data\<close> returns and clears.

  Elements of Python's \<open>bytes\<close> are integers in 0..255: they are \<open>8 word\<close> here.
  The integers that \<open>struct.unpack\<close> returns are unbounded Python integers: \<open>int\<close>.
\<close>

type_synonym byte = "8 word"

subsection \<open>Protocol constants (class attributes)\<close>

definition SOF :: "byte list" where
  "SOF = [0xAA, 0x55]"

definition EOF :: "byte list" where
  "EOF = [0x55, 0xAA]"

text \<open>\<open>struct.calcsize('<4HQ')\<close>: four 2-byte fields and one 8-byte field, no padding.\<close>

definition PAYLOAD_SIZE :: nat where
  "PAYLOAD_SIZE = 4 * 2 + 8"

definition CHECKSUM_SIZE :: nat where
  "CHECKSUM_SIZE = 1"

definition EXPECTED_PACKET_LEN :: nat where
  "EXPECTED_PACKET_LEN = PAYLOAD_SIZE + CHECKSUM_SIZE"

definition CRC8_TABLE :: "byte list" where
  "CRC8_TABLE = [
     0x00, 0x07, 0x0e, 0x09, 0x1c, 0x1b, 0x12, 0x15, 0x38, 0x3f, 0x36, 0x31, 0x24, 0x23, 0x2a, 0x2d,
     0x70, 0x77, 0x7e, 0x79, 0x6c, 0x6b, 0x62, 0x65, 0x48, 0x4f, 0x46, 0x41, 0x54, 0x53, 0x5a, 0x5d,
     0xe0, 0xe7, 0xee, 0xe9, 0xfc, 0xfb, 0xf2, 0xf5, 0xd8, 0xdf, 0xd6, 0xd1, 0xc4, 0xc3, 0xca, 0xcd,
     0x90, 0x97, 0x9e, 0x99, 0x8c, 0x8b, 0x82, 0x85, 0xa8, 0xaf, 0xa6, 0xa1, 0xb4, 0xb3, 0xba, 0xbd,
     0xc7, 0xc0, 0xc9, 0xce, 0xdb, 0xdc, 0xd5, 0xd2, 0xff, 0xf8, 0xf1, 0xf6, 0xe3, 0xe4, 0xed, 0xea,
     0xb7, 0xb0, 0xb9, 0xbe, 0xab, 0xac, 0xa5, 0xa2, 0x8f, 0x88, 0x81, 0x86, 0x93, 0x94, 0x9d, 0x9a,
     0x27, 0x20, 0x29, 0x2e, 0x3b, 0x3c, 0x35, 0x32, 0x1f, 0x18, 0x11, 0x16, 0x03, 0x04, 0x0d, 0x0a,
     0x57, 0x50, 0x59, 0x5e, 0x4b, 0x4c, 0x45, 0x42, 0x6f, 0x68, 0x61, 0x66, 0x73, 0x74, 0x7d, 0x7a,
     0x89, 0x8e, 0x87, 0x80, 0x95, 0x92, 0x9b, 0x9c, 0xb1, 0xb6, 0xbf, 0xb8, 0xad, 0xaa, 0xa3, 0xa4,
     0xf9, 0xfe, 0xf7, 0xf0, 0xe5, 0xe2, 0xeb, 0xec, 0xc1, 0xc6, 0xcf, 0xc8, 0xdd, 0xda, 0xd3, 0xd4,
     0x69, 0x6e, 0x67, 0x60, 0x75, 0x72, 0x7b, 0x7c, 0x51, 0x56, 0x5f, 0x58, 0x4d, 0x4a, 0x43, 0x44,
     0x19, 0x1e, 0x17, 0x10, 0x05, 0x02, 0x0b, 0x0c, 0x21, 0x26, 0x2f, 0x28, 0x3d, 0x3a, 0x33, 0x34,
     0x4e, 0x49, 0x40, 0x47, 0x52, 0x55, 0x5c, 0x5b, 0x76, 0x71, 0x78, 0x7f, 0x6a, 0x6d, 0x64, 0x63,
     0x3e, 0x39, 0x30, 0x37, 0x22, 0x25, 0x2c, 0x2b, 0x06, 0x01, 0x08, 0x0f, 0x1a, 0x1d, 0x14, 0x13,
     0xae, 0xa9, 0xa0, 0xa7, 0xb2, 0xb5, 0xbc, 0xbb, 0x96, 0x91, 0x98, 0x9f, 0x8a, 0x8d, 0x84, 0x83,
     0xde, 0xd9, 0xd0, 0xd7, 0xc2, 0xc5, 0xcc, 0xcb, 0xe6, 0xe1, 0xe8, 0xef, 0xfa, 0xfd, 0xf4, 0xf3
  ]"

subsection \<open>The checksum\<close>

text \<open>
  \<open>_calculate_crc8\<close>: the accumulator starts at 0 and each byte replaces it by the table
  entry at \<open>crc ^ byte\<close>. Both operands are below 256, so the index is always inside the
  256-entry table and the lookup never raises.
\<close>

definition calculate_crc8 :: "byte list \<Rightarrow> byte" where
  "calculate_crc8 data_bytes = fold (\<lambda>byte crc. CRC8_TABLE ! unat (crc XOR byte)) data_bytes 0"

subsection \<open>The payload codec\<close>

text \<open>
  The dictionary stored in \<open>latest_data\<close> always has the five keys
  \<open>'x'\<close>, \<open>'y'\<close>, \<open>'w'\<close>, \<open>'h'\<close>, \<open>'timestamp'\<close>: a record with these fields.
\<close>

record data =
  x :: int
  y :: int
  w :: int
  h :: int
  timestamp :: int

text \<open>An unsigned little-endian integer, as the \<open>H\<close> and \<open>Q\<close> codes of format \<open><4HQ\<close> read it.\<close>

fun from_le :: "byte list \<Rightarrow> int" where
  "from_le [] = 0"
| "from_le (b # bs) = uint b + 256 * from_le bs"

text \<open>The exceptions the loop distinguishes: \<open>serial.SerialException\<close> and every other \<open>Exception\<close>.\<close>

datatype exn = SerialException | OtherException

text \<open>
  \<open>struct.unpack('<4HQ', payload_bytes)\<close>: raises \<open>struct.error\<close> unless the buffer has
  exactly \<open>PAYLOAD_SIZE\<close> bytes; the result is stored under the five keys.
\<close>

definition unpack :: "byte list \<Rightarrow> exn + data" where
  "unpack payload_bytes =
     (if length payload_bytes \<noteq> PAYLOAD_SIZE then Inl OtherException
      else Inr \<lparr> x = from_le (take 2 payload_bytes),
                 y = from_le (take 2 (drop 2 payload_bytes)),
                 w = from_le (take 2 (drop 4 payload_bytes)),
                 h = from_le (take 2 (drop 6 payload_bytes)),
                 timestamp = from_le (take 8 (drop 8 payload_bytes)) \<rparr>)"

subsection \<open>The serial port\<close>

text \<open>
  Modelled from the spec: the byte source \<open>read(max_bytes, timeout)\<close> of section 6, which
  is pyserial's \<open>Serial.read\<close> and not part of the repository. It "returns fewer than
  requested on timeout, never blocks past timeout, raises a transport-fatal error on
  disconnect". The port is the sequence of what the line will deliver: a byte, a silence
  longer than the read timeout, a disconnect, or a fault that makes \<open>read\<close> raise an
  exception other than \<open>SerialException\<close>. A port with nothing left stays silent.
\<close>

datatype rx = Byte byte | Timeout | Disconnect | Fault

type_synonym transport = "rx list"

fun ser_read :: "nat \<Rightarrow> transport \<Rightarrow> (exn + byte list) \<times> transport" where
  "ser_read 0 t = (Inr [], t)"
| "ser_read (Suc n) [] = (Inr [], [])"
| "ser_read (Suc n) (Byte b # t) =
     (case ser_read n t of
        (Inl e, t') \<Rightarrow> (Inl e, t')
      | (Inr bs, t') \<Rightarrow> (Inr (b # bs), t'))"
| "ser_read (Suc n) (Timeout # t) = (Inr [], t)"
| "ser_read (Suc n) (Disconnect # t) = (Inl SerialException, Disconnect # t)"
| "ser_read (Suc n) (Fault # t) = (Inl OtherException, t)"

subsection \<open>The receiver object\<close>

text \<open>
  The fields of \<open>MaixCamReceiver\<close> that the loop and \<open>get_latest_data\<close> use. \<open>port\<close>,
  \<open>baudrate\<close>, \<open>debug\<close> (which only switches printing) and \<open>thread\<close> are left out; the
  lock is the atomicity of each function below. \<open>store_writes\<close> is an observer that the
  source does not have: the values assigned to \<open>latest_data\<close> by the loop, oldest first.
\<close>

record receiver =
  ser :: transport
  is_running :: bool
  latest_data :: "data option"
  store_writes :: "data list"

text \<open>The receiver as \<open>__init__\<close> and a successful \<open>start\<close> leave it, on the opened port.\<close>

definition started :: "transport \<Rightarrow> receiver" where
  "started t = \<lparr> ser = t, is_running = True, latest_data = None, store_writes = [] \<rparr>"

text \<open>\<open>get_latest_data\<close>: under the lock, return the slot and set it to \<open>None\<close>.\<close>

definition get_latest_data :: "receiver \<Rightarrow> data option \<times> receiver" where
  "get_latest_data r = (latest_data r, r\<lparr>latest_data := None\<rparr>)"

text \<open>The assignment \<open>self.latest_data = {...}\<close> under the lock.\<close>

definition publish :: "data \<Rightarrow> receiver \<Rightarrow> receiver" where
  "publish d r = r\<lparr>latest_data := Some d, store_writes := store_writes r @ [d]\<rparr>"

subsection \<open>One iteration of the loop\<close>

text \<open>
  The \<open>try\<close> block returns the exception it raised, if any, with \<open>sync_state\<close> and the
  receiver as they are when control leaves the block: assignments made before a raise stay.

  First part: the marker search, \<open>if sync_state == 0: ... elif sync_state == 1: ...\<close>.
\<close>

definition seek_sof :: "nat \<Rightarrow> receiver \<Rightarrow> exn option \<times> nat \<times> receiver" where
  "seek_sof sync_state r =
     (if sync_state = 0 then
        (case ser_read 1 (ser r) of
           (Inl e, t) \<Rightarrow> (Some e, sync_state, r\<lparr>ser := t\<rparr>)
         | (Inr byte, t) \<Rightarrow>
             (None, if byte = take 1 SOF then 1 else sync_state, r\<lparr>ser := t\<rparr>))
      else if sync_state = 1 then
        (case ser_read 1 (ser r) of
           (Inl e, t) \<Rightarrow> (Some e, sync_state, r\<lparr>ser := t\<rparr>)
         | (Inr byte, t) \<Rightarrow>
             (None, if byte = drop 1 SOF then 2 else 0, r\<lparr>ser := t\<rparr>))
      else (None, sync_state, r))"

text \<open>
  Second part, the body of \<open>if sync_state == 2\<close>: length byte, block read of body and
  trailer, trailer check, checksum check, decode and store. Every \<open>continue\<close> is a
  result with \<open>sync_state\<close> 0 and no exception.
\<close>

definition read_packet :: "receiver \<Rightarrow> exn option \<times> nat \<times> receiver" where
  "read_packet r =
     (case ser_read 1 (ser r) of
        (Inl e, t) \<Rightarrow> (Some e, 2, r\<lparr>ser := t\<rparr>)
      | (Inr len_byte, t) \<Rightarrow>
          if len_byte = [] then (None, 0, r\<lparr>ser := t\<rparr>)
          else
            let packet_len = unat (hd len_byte) in
            if packet_len \<noteq> EXPECTED_PACKET_LEN then (None, 0, r\<lparr>ser := t\<rparr>)
            else
              (case ser_read (packet_len + length EOF) t of
                 (Inl e, t') \<Rightarrow> (Some e, 2, r\<lparr>ser := t'\<rparr>)
               | (Inr full_packet_data, t') \<Rightarrow>
                   if length full_packet_data \<noteq> packet_len + length EOF
                   then (None, 0, r\<lparr>ser := t'\<rparr>)
                   else
                     let packet_data = take packet_len full_packet_data;
                         eof_data = drop packet_len full_packet_data in
                     if eof_data \<noteq> EOF then (None, 0, r\<lparr>ser := t'\<rparr>)
                     else
                       let payload_bytes =
                             take (length packet_data - CHECKSUM_SIZE) packet_data;
                           received_checksum =
                             packet_data ! (length packet_data - CHECKSUM_SIZE);
                           calculated_checksum = calculate_crc8 payload_bytes in
                       if received_checksum = calculated_checksum then
                         (case unpack payload_bytes of
                            Inl e \<Rightarrow> (Some e, 2, r\<lparr>ser := t'\<rparr>)
                          | Inr d \<Rightarrow> (None, 0, publish d (r\<lparr>ser := t'\<rparr>)))
                       else (None, 0, r\<lparr>ser := t'\<rparr>)))"

definition try_body :: "nat \<Rightarrow> receiver \<Rightarrow> exn option \<times> nat \<times> receiver" where
  "try_body sync_state r =
     (case seek_sof sync_state r of
        (Some e, s, r') \<Rightarrow> (Some e, s, r')
      | (None, s, r') \<Rightarrow> if s = 2 then read_packet r' else (None, s, r'))"

text \<open>
  The loop body with its handlers: \<open>SerialException\<close> clears \<open>is_running\<close>; any other
  exception is only printed. Neither handler assigns \<open>sync_state\<close>.
\<close>

definition iteration :: "nat \<times> receiver \<Rightarrow> nat \<times> receiver" where
  "iteration c =
     (case try_body (fst c) (snd c) of
        (None, s, r) \<Rightarrow> (s, r)
      | (Some SerialException, s, r) \<Rightarrow> (s, r\<lparr>is_running := False\<rparr>)
      | (Some OtherException, s, r) \<Rightarrow> (s, r))"

subsection \<open>The loop\<close>

text \<open>
  \<open>while self.is_running\<close> does not end on its own while the port is open. \<open>loop_steps n\<close>
  is the loop's state after \<open>n\<close> iterations, or at its exit if that comes first.
  \<open>read_loop\<close> is the whole loop with fuel: \<open>None\<close> when the fuel runs out before the
  loop exits, the final state otherwise. \<open>_read_loop\<close> starts with \<open>sync_state = 0\<close>.
\<close>

fun loop_steps :: "nat \<Rightarrow> nat \<times> receiver \<Rightarrow> nat \<times> receiver" where
  "loop_steps 0 c = c"
| "loop_steps (Suc n) c = (if is_running (snd c) then loop_steps n (iteration c) else c)"


subsection \<open>The sender's side of the wire format\<close>

text \<open>
  Modelled from the spec: the frame layout of section 6, which the repository only
  decodes (the sender is the camera's script). A frame is the start marker, the length
  byte \<open>PAYLOAD_SIZE + 1\<close>, the payload, the CRC-8 of the payload and the end marker; the
  payload is four unsigned 16-bit fields and one unsigned 64-bit field, little-endian.
\<close>

fun to_le :: "nat \<Rightarrow> int \<Rightarrow> byte list" where
  "to_le 0 v = []"
| "to_le (Suc n) v = word_of_int (v mod 256) # to_le n (v div 256)"

definition pack :: "data \<Rightarrow> byte list" where
  "pack d = to_le 2 (x d) @ to_le 2 (y d) @ to_le 2 (w d) @ to_le 2 (h d) @ to_le 8 (timestamp d)"

definition frame :: "byte list \<Rightarrow> byte \<Rightarrow> byte list" where
  "frame payload checksum =
     [0xAA, 0x55] @ [word_of_nat (PAYLOAD_SIZE + 1)] @ payload @ [checksum] @ [0x55, 0xAA]"

definition encode :: "data \<Rightarrow> byte list" where
  "encode d = frame (pack d) (calculate_crc8 (pack d))"

text \<open>The fields of a record are in range when they fit the wire widths.\<close>

definition in_range :: "data \<Rightarrow> bool" where
  "in_range d \<longleftrightarrow>
     0 \<le> x d \<and> x d < 2 ^ 16 \<and> 0 \<le> y d \<and> y d < 2 ^ 16 \<and>
     0 \<le> w d \<and> w d < 2 ^ 16 \<and> 0 \<le> h d \<and> h d < 2 ^ 16 \<and>
     0 \<le> timestamp d \<and> timestamp d < 2 ^ 64"

text \<open>
  A description of input bytes, used to state which bytes the marker search passes over:
  every 0xAA among them is followed by a further byte of them that is not 0x55. The
  search is then in state 0 after the last byte and has met no start marker.
\<close>

fun search_skips :: "byte list \<Rightarrow> bool" where
  "search_skips [] = True"
| "search_skips [b] = (b \<noteq> 0xAA)"
| "search_skips (b # c # bs) =
     (if b = 0xAA then c \<noteq> 0x55 \<and> search_skips bs else search_skips (c # bs))"

section \<open>Properties\<close>

subsection \<open>Reading, decoding and single iterations\<close>

lemma CRC8_TABLE_length: "length CRC8_TABLE = 256"
  by (simp add: CRC8_TABLE_def)

lemma ser_read_bytes: "ser_read (length bs) (map Byte bs @ t) = (Inr bs, t)"
  by (induction bs) simp_all

lemma ser_read_one: "ser_read 1 (Byte b # t) = (Inr [b], t)"
  using ser_read_bytes [of "[b]" t] by simp

lemma ser_read_block:
  assumes "length bs = n"
  shows "ser_read n (map Byte bs @ t) = (Inr bs, t)"
  using ser_read_bytes [of bs t] assms by simp

lemma seek_sof_first:
  "seek_sof 0 (r\<lparr>ser := Byte b # t\<rparr>) = (None, if b = 0xAA then 1 else 0, r\<lparr>ser := t\<rparr>)"
  by (simp add: seek_sof_def ser_read_one SOF_def)

lemma seek_sof_second:
  "seek_sof 1 (r\<lparr>ser := Byte b # t\<rparr>) = (None, if b = 0x55 then 2 else 0, r\<lparr>ser := t\<rparr>)"
  by (simp add: seek_sof_def ser_read_one SOF_def)

lemma read_packet_block:
  assumes n: "length body = 17 + length EOF"
  shows "read_packet (r\<lparr>ser := Byte 17 # map Byte body @ t\<rparr>) =
           (if drop 17 body \<noteq> EOF then (None, 0, r\<lparr>ser := t\<rparr>)
            else if take 17 body ! 16 = calculate_crc8 (take 16 body)
            then (case unpack (take 16 body) of
                    Inl e \<Rightarrow> (Some e, 2, r\<lparr>ser := t\<rparr>)
                  | Inr d \<Rightarrow> (None, 0, publish d (r\<lparr>ser := t\<rparr>)))
            else (None, 0, r\<lparr>ser := t\<rparr>))"
proof -
  have blk: "ser_read (17 + length EOF) (map Byte body @ t) = (Inr body, t)"
    by (rule ser_read_block [OF n])
  have l17: "length (take 17 body) = 17"
    using n by simp
  show ?thesis
    unfolding read_packet_def
    by (simp add: ser_read_one EXPECTED_PACKET_LEN_def PAYLOAD_SIZE_def CHECKSUM_SIZE_def
        blk n l17 Let_def split: sum.split)
qed

lemma read_packet_body:
  assumes len: "length p = PAYLOAD_SIZE"
  shows "read_packet (r\<lparr>ser := Byte 17 # map Byte (p @ [c] @ EOF) @ t\<rparr>) =
           (if c = calculate_crc8 p
            then (case unpack p of
                    Inl e \<Rightarrow> (Some e, 2, r\<lparr>ser := t\<rparr>)
                  | Inr d \<Rightarrow> (None, 0, publish d (r\<lparr>ser := t\<rparr>)))
            else (None, 0, r\<lparr>ser := t\<rparr>))"
proof -
  have n: "length (p @ [c] @ EOF) = 17 + length EOF"
    using len by (simp add: PAYLOAD_SIZE_def)
  have parts: "drop 17 (p @ [c] @ EOF) = EOF" "take 17 (p @ [c] @ EOF) ! 16 = c"
    "take 16 (p @ [c] @ EOF) = p"
    using len by (simp_all add: PAYLOAD_SIZE_def nth_append)
  show ?thesis
    unfolding read_packet_block [OF n] parts by simp
qed


lemma length_to_le: "length (to_le n v) = n"
  by (induction n arbitrary: v) simp_all

lemma from_le_to_le: "0 \<le> v \<Longrightarrow> v < 256 ^ n \<Longrightarrow> from_le (to_le n v) = v"
proof (induction n arbitrary: v)
  case 0
  then show ?case by simp
next
  case (Suc n)
  have lo: "uint (word_of_int (v mod 256) :: byte) = v mod 256"
    by (simp add: uint_word_of_int)
  have "0 \<le> v div 256" "v div 256 < 256 ^ n"
    using Suc.prems by simp_all
  then have "from_le (to_le n (v div 256)) = v div 256"
    by (rule Suc.IH)
  then show ?case
    using lo by simp
qed

lemma length_pack: "length (pack d) = PAYLOAD_SIZE"
  by (simp add: pack_def PAYLOAD_SIZE_def length_to_le)

lemma unpack_pack: "in_range d \<Longrightarrow> unpack (pack d) = Inr d"
  unfolding unpack_def
  by (simp add: length_pack) (simp add: pack_def length_to_le from_le_to_le in_range_def)

lemma frame_stream:
  "map Byte (frame p c) @ t = Byte 0xAA # Byte 0x55 # Byte 17 # map Byte (p @ [c] @ EOF) @ t"
  by (simp add: frame_def EOF_def PAYLOAD_SIZE_def)

lemma length_frame: "length p = PAYLOAD_SIZE \<Longrightarrow> length (frame p c) = 22"
  by (simp add: frame_def PAYLOAD_SIZE_def)

lemma iteration_first:
  "iteration (0, r\<lparr>ser := Byte b # t\<rparr>) = (if b = 0xAA then 1 else 0, r\<lparr>ser := t\<rparr>)"
  by (simp add: iteration_def try_body_def seek_sof_first)

lemma iteration_second_frame:
  assumes len: "length p = PAYLOAD_SIZE" and dec: "unpack p = Inr d"
  shows "iteration (1, r\<lparr>ser := Byte 0x55 # Byte 17 # map Byte (p @ [c] @ EOF) @ t\<rparr>) =
           (0, if c = calculate_crc8 p then publish d (r\<lparr>ser := t\<rparr>) else r\<lparr>ser := t\<rparr>)"
proof -
  define body where "body = Byte 17 # map Byte (p @ [c] @ EOF) @ t"
  have seek: "seek_sof 1 (r\<lparr>ser := Byte 0x55 # body\<rparr>) = (None, 2, r\<lparr>ser := body\<rparr>)"
    using seek_sof_second [where r = r and b = "0x55" and t = body] by simp
  have pkt: "read_packet (r\<lparr>ser := body\<rparr>) =
               (None, 0, if c = calculate_crc8 p then publish d (r\<lparr>ser := t\<rparr>) else r\<lparr>ser := t\<rparr>)"
    unfolding body_def read_packet_body [OF len] by (simp add: dec)
  have "iteration (1, r\<lparr>ser := Byte 0x55 # body\<rparr>) =
          (0, if c = calculate_crc8 p then publish d (r\<lparr>ser := t\<rparr>) else r\<lparr>ser := t\<rparr>)"
    unfolding iteration_def try_body_def fst_conv snd_conv seek by (simp add: pkt)
  then show ?thesis
    unfolding body_def .
qed

lemma loop_steps_two:
  assumes "is_running (snd c)" and "is_running (snd (iteration c))"
  shows "loop_steps 2 c = iteration (iteration c)"
  using assms by (simp add: numeral_2_eq_2)

lemma loop_steps_add: "loop_steps (m + n) c = loop_steps n (loop_steps m c)"
proof (induction m arbitrary: c)
  case 0
  show ?case by simp
next
  case (Suc m)
  show ?case
  proof (cases "is_running (snd c)")
    case True
    then show ?thesis by (simp add: Suc.IH)
  next
    case False
    then have "loop_steps k c = c" for k
      by (cases k) simp_all
    then show ?thesis by simp
  qed
qed

lemma frame_steps:
  assumes run: "is_running r" and len: "length p = PAYLOAD_SIZE" and dec: "unpack p = Inr d"
  shows "loop_steps 2 (0, r\<lparr>ser := map Byte (frame p c) @ t\<rparr>) =
           (0, if c = calculate_crc8 p then publish d (r\<lparr>ser := t\<rparr>) else r\<lparr>ser := t\<rparr>)"
proof -
  define rest where "rest = Byte 0x55 # Byte 17 # map Byte (p @ [c] @ EOF) @ t"
  have one: "iteration (0, r\<lparr>ser := Byte 0xAA # rest\<rparr>) = (1, r\<lparr>ser := rest\<rparr>)"
    by (simp add: iteration_first)
  have two: "loop_steps 2 (0, r\<lparr>ser := Byte 0xAA # rest\<rparr>) =
               iteration (iteration (0, r\<lparr>ser := Byte 0xAA # rest\<rparr>))"
    by (rule loop_steps_two) (simp_all add: one run)
  have "loop_steps 2 (0, r\<lparr>ser := Byte 0xAA # rest\<rparr>) = iteration (1, r\<lparr>ser := rest\<rparr>)"
    unfolding two one ..
  then show ?thesis
    unfolding frame_stream rest_def iteration_second_frame [OF len dec] .
qed

lemma unpack_total: "length p = PAYLOAD_SIZE \<Longrightarrow> \<exists>d. unpack p = Inr d"
  by (simp add: unpack_def)

lemma loop_steps_idle:
  assumes "is_running r" and "ser r = []"
  shows "loop_steps n (0, r) = (0, r)"
proof (induction n)
  case 0
  show ?case by simp
next
  case (Suc n)
  have "iteration (0, r) = (0, r)"
    using assms by (simp add: iteration_def try_body_def seek_sof_def SOF_def)
  then show ?case
    using assms Suc by simp
qed

lemma encoded_frame_steps:
  assumes run: "is_running r" and rng: "in_range d"
  shows "loop_steps 2 (0, r\<lparr>ser := map Byte (encode d) @ t\<rparr>) = (0, publish d (r\<lparr>ser := t\<rparr>))"
  unfolding encode_def
  using frame_steps [OF run length_pack unpack_pack [OF rng], where c = "calculate_crc8 (pack d)" and t = t]
  by simp

text \<open>The example of the specification's section 8, byte for byte.\<close>

lemma encode_example:
  "encode \<lparr>x = 100, y = 200, w = 50, h = 60, timestamp = 1700000000000\<rparr> =
     [170, 85, 17, 100, 0, 200, 0, 50, 0, 60, 0, 0, 104, 229, 207, 139, 1, 0, 0, 225, 85, 170]"
  by code_simp

subsection \<open>A valid frame is decoded and stored once\<close>

text \<open>
  C1. For every record whose fields fit the wire widths, the 22 bytes of its frame, fed
  to a freshly started receiver, are decoded in two iterations; after these and after any
  number of further iterations on the silent port the loop is back in state 0, the slot
  has been assigned exactly once, with the original record, and \<open>get_latest_data\<close>
  returns that record.
\<close>

theorem valid_frame_published_once:
  assumes "in_range d"
  shows "length (encode d) = 22 \<and>
         fst (loop_steps (2 + n) (0, started (map Byte (encode d)))) = 0 \<and>
         store_writes (snd (loop_steps (2 + n) (0, started (map Byte (encode d))))) = [d] \<and>
         fst (get_latest_data (snd (loop_steps (2 + n) (0, started (map Byte (encode d)))))) = Some d"
proof -
  have two: "loop_steps 2 (0, started (map Byte (encode d))) = (0, publish d (started []))"
    using encoded_frame_steps [OF _ assms, where r = "started []" and t = "[]"]
    by (simp add: started_def)
  have "loop_steps n (0, publish d (started [])) = (0, publish d (started []))"
    by (rule loop_steps_idle) (simp_all add: publish_def started_def)
  then have all: "loop_steps (2 + n) (0, started (map Byte (encode d))) = (0, publish d (started []))"
    unfolding loop_steps_add two .
  have len: "length (encode d) = 22"
    unfolding encode_def by (rule length_frame [OF length_pack])
  show ?thesis
    unfolding all by (simp add: len publish_def started_def get_latest_data_def)
qed

theorem valid_frame_published_once_witness:
  "in_range \<lparr>x = 100, y = 200, w = 50, h = 60, timestamp = 1700000000000\<rparr> \<and>
   store_writes (snd (loop_steps (2 + 3) (0, started (map Byte
      (encode \<lparr>x = 100, y = 200, w = 50, h = 60, timestamp = 1700000000000\<rparr>))))) =
     [\<lparr>x = 100, y = 200, w = 50, h = 60, timestamp = 1700000000000\<rparr>]"
proof -
  have h: "in_range \<lparr>x = 100, y = 200, w = 50, h = 60, timestamp = 1700000000000\<rparr>"
    by (simp add: in_range_def)
  show ?thesis
    using h valid_frame_published_once [OF h, of 3] by blast
qed

subsection \<open>Reading consumes\<close>

text \<open>
  C2. In every state of the receiver, \<open>get_latest_data\<close> returns what the slot holds
  and leaves the slot empty, so a second call right after it returns \<open>None\<close>.
\<close>

theorem take_consumes:
  "fst (get_latest_data r) = latest_data r \<and>
   latest_data (snd (get_latest_data r)) = None \<and>
   fst (get_latest_data (snd (get_latest_data r))) = None"
  by (simp add: get_latest_data_def)

subsection \<open>The marker search\<close>

text \<open>
  C5. A byte other than 0x55 read in state 1 sends the loop back to state 0 with the
  byte removed from the port: it is not looked at again, also when it is 0xAA.
\<close>

theorem second_marker_mismatch_drops_byte:
  assumes "b \<noteq> 0x55"
  shows "iteration (1, r\<lparr>ser := Byte b # t\<rparr>) = (0, r\<lparr>ser := t\<rparr>)"
  using assms seek_sof_second [where r = r and b = b and t = t]
  by (simp add: iteration_def try_body_def)

theorem second_marker_mismatch_drops_byte_witness:
  "(0xAA :: byte) \<noteq> 0x55 \<and>
   iteration (1, (started [])\<lparr>ser := Byte 0xAA # [Byte 0x55]\<rparr>) = (0, (started [])\<lparr>ser := [Byte 0x55]\<rparr>)"
proof -
  have h: "(0xAA :: byte) \<noteq> 0x55" by simp
  show ?thesis
    using h second_marker_mismatch_drops_byte [OF h, where r = "started []" and t = "[Byte 0x55]"]
    by blast
qed

text \<open>
  C10. When the one-byte read of the marker search returns no byte, the loop stays in
  state 0 if it was there and returns to state 0 from state 1; it never reaches state 2.
\<close>

theorem timeout_in_marker_search:
  assumes "ser_read 1 (ser r) = (Inr [], t)"
  shows "iteration (0, r) = (0, r\<lparr>ser := t\<rparr>) \<and> iteration (1, r) = (0, r\<lparr>ser := t\<rparr>)"
  using assms by (simp add: iteration_def try_body_def seek_sof_def SOF_def)

theorem timeout_in_marker_search_witness:
  "ser_read 1 (ser (started [Timeout, Byte 0x55])) = (Inr [], [Byte 0x55]) \<and>
   iteration (0, started [Timeout, Byte 0x55]) = (0, (started [Timeout, Byte 0x55])\<lparr>ser := [Byte 0x55]\<rparr>) \<and>
   iteration (1, started [Timeout, Byte 0x55]) = (0, (started [Timeout, Byte 0x55])\<lparr>ser := [Byte 0x55]\<rparr>)"
proof -
  have h: "ser_read 1 (ser (started [Timeout, Byte 0x55])) = (Inr [], [Byte 0x55])"
    by (simp add: started_def)
  show ?thesis
    using h timeout_in_marker_search [OF h] by blast
qed

subsection \<open>Frames that are rejected\<close>

lemma rejected_frame_steps:
  assumes run: "is_running r" and len: "length p = PAYLOAD_SIZE" and bad: "c \<noteq> calculate_crc8 p"
  shows "loop_steps 2 (0, r\<lparr>ser := map Byte (frame p c) @ u\<rparr>) = (0, r\<lparr>ser := u\<rparr>)"
proof -
  obtain d where dec: "unpack p = Inr d"
    using unpack_total [OF len] ..
  show ?thesis
    using frame_steps [OF run len dec, where c = c and t = u] bad by simp
qed

text \<open>
  C3. A frame with the right markers and length whose checksum byte differs from the
  CRC-8 of its payload is consumed in two iterations that change nothing in the receiver
  but the port: nothing is stored, the slot and the record of writes are as before, and
  the loop is in state 0. A valid frame that follows it at once is decoded and stored
  by the next two iterations.
\<close>

theorem checksum_mismatch_discarded:
  assumes "is_running r" and "length p = PAYLOAD_SIZE" and "c \<noteq> calculate_crc8 p"
    and "in_range d"
  shows "loop_steps 2 (0, r\<lparr>ser := map Byte (frame p c) @ u\<rparr>) = (0, r\<lparr>ser := u\<rparr>) \<and>
         loop_steps (2 + 2) (0, r\<lparr>ser := map Byte (frame p c) @ map Byte (encode d) @ t\<rparr>) =
           (0, publish d (r\<lparr>ser := t\<rparr>))"
proof -
  have bad: "loop_steps 2 (0, r\<lparr>ser := map Byte (frame p c) @ v\<rparr>) = (0, r\<lparr>ser := v\<rparr>)" for v
    by (rule rejected_frame_steps [OF assms(1-3)])
  have good: "loop_steps 2 (0, r\<lparr>ser := map Byte (encode d) @ t\<rparr>) = (0, publish d (r\<lparr>ser := t\<rparr>))"
    by (rule encoded_frame_steps [OF assms(1) assms(4)])
  show ?thesis
    unfolding loop_steps_add bad good by simp
qed

theorem checksum_mismatch_discarded_witness:
  "is_running (started []) \<and>
   length [101, 0, 200, 0, 50, 0, 60, 0, 0, 104, 229, 207, 139, 1, 0, 0 :: byte] = PAYLOAD_SIZE \<and>
   225 \<noteq> calculate_crc8 [101, 0, 200, 0, 50, 0, 60, 0, 0, 104, 229, 207, 139, 1, 0, 0] \<and>
   in_range \<lparr>x = 100, y = 200, w = 50, h = 60, timestamp = 1700000000000\<rparr> \<and>
   loop_steps (2 + 2) (0, (started [])\<lparr>ser :=
       map Byte (frame [101, 0, 200, 0, 50, 0, 60, 0, 0, 104, 229, 207, 139, 1, 0, 0] 225) @
       map Byte (encode \<lparr>x = 100, y = 200, w = 50, h = 60, timestamp = 1700000000000\<rparr>) @ []\<rparr>) =
     (0, publish \<lparr>x = 100, y = 200, w = 50, h = 60, timestamp = 1700000000000\<rparr>
           ((started [])\<lparr>ser := []\<rparr>))"
proof -
  have h1: "is_running (started [])"
    by (simp add: started_def)
  have h2: "length [101, 0, 200, 0, 50, 0, 60, 0, 0, 104, 229, 207, 139, 1, 0, 0 :: byte] = PAYLOAD_SIZE"
    by (simp add: PAYLOAD_SIZE_def)
  have h3: "225 \<noteq> calculate_crc8 [101, 0, 200, 0, 50, 0, 60, 0, 0, 104, 229, 207, 139, 1, 0, 0]"
    by code_simp
  have h4: "in_range \<lparr>x = 100, y = 200, w = 50, h = 60, timestamp = 1700000000000\<rparr>"
    by (simp add: in_range_def)
  show ?thesis
    using h1 h2 h3 h4 checksum_mismatch_discarded [OF h1 h2 h3 h4, where t = "[]"] by blast
qed



text \<open>Bytes without any 0xAA are the simplest case.\<close>

lemma no_first_marker_skips: "0xAA \<notin> set junk \<Longrightarrow> search_skips junk"
  by (induction junk rule: search_skips.induct) auto





subsection \<open>The marker inside a payload\<close>



subsection \<open>State after an attempt\<close>

lemma seek_sof_state:
  assumes "fst (seek_sof s r) = None" and "s \<le> 2"
  shows "fst (snd (seek_sof s r)) =
           (if s = 0 then (if fst (ser_read 1 (ser r)) = Inr (take 1 SOF) then 1 else 0)
            else if s = 1 then (if fst (ser_read 1 (ser r)) = Inr (drop 1 SOF) then 2 else 0)
            else 2)"
  using assms by (auto simp: seek_sof_def split: prod.splits sum.splits)

lemma read_packet_state: "fst (read_packet r) = None \<Longrightarrow> fst (snd (read_packet r)) = 0"
  by (auto simp: read_packet_def Let_def split: prod.splits sum.splits if_splits)

text \<open>
  An iteration that starts in state 0, 1 or 2 and raises no exception ends in state 0,
  except that it ends in state 1 when it started in state 0 and read 0xAA: every path
  of the \<open>try\<close> block that gives an attempt up assigns \<open>sync_state = 0\<close>, as the end of
  a processed packet does.
\<close>

lemma attempt_without_exception_resets_state:
  assumes "fst (try_body s r) = None" and "s \<le> 2"
  shows "fst (iteration (s, r)) =
           (if s = 0 \<and> fst (ser_read 1 (ser r)) = Inr (take 1 SOF) then 1 else 0)"
proof -
  obtain e s' r' where sk: "seek_sof s r = (e, s', r')"
    by (cases "seek_sof s r") auto
  have e: "e = None"
    using assms(1) sk by (cases e) (simp_all add: try_body_def)
  have s': "s' = (if s = 0 then (if fst (ser_read 1 (ser r)) = Inr (take 1 SOF) then 1 else 0)
            else if s = 1 then (if fst (ser_read 1 (ser r)) = Inr (drop 1 SOF) then 2 else 0)
            else 2)"
    using seek_sof_state [OF _ assms(2), of r] sk e by simp
  have it: "fst (iteration (s, r)) = fst (snd (try_body s r))"
    using assms(1) by (cases "try_body s r") (simp add: iteration_def)
  show ?thesis
  proof (cases "s' = 2")
    case True
    then have tb: "try_body s r = read_packet r'"
      by (simp add: try_body_def sk e)
    then have "fst (snd (try_body s r)) = 0"
      using assms(1) read_packet_state [of r'] by simp
    moreover have "s \<noteq> 0"
      using True s' by (auto split: if_splits)
    ultimately show ?thesis
      using it by simp
  next
    case False
    then have "fst (snd (try_body s r)) = s'"
      by (simp add: try_body_def sk e)
    then show ?thesis
      using it s' False by (auto split: if_splits)
  qed
qed

text \<open>
  C4. The claim asks for state 0 after every attempt, also after one that ends in a
  caught exception other than \<open>SerialException\<close>. There the loop does not reset: the
  handler only prints, and \<open>sync_state\<close> stays what it was at the raise. After the
  marker 0xAA 0x55, a read that raises such an exception leaves the loop in state 2,
  whether it is the read of the length byte or the block read after a length byte 17.
  The next iteration then reads a length byte without any marker search, and a valid
  frame that arrives right after the fault is not stored.
\<close>

theorem fault_keeps_sync_state:
  "fst (try_body 1 (started [Byte 0x55, Fault])) = Some OtherException \<and>
   fst (iteration (1, started [Byte 0x55, Fault])) = 2 \<and>
   fst (loop_steps 2 (0, started [Byte 0xAA, Byte 0x55, Fault])) = 2 \<and>
   fst (iteration (1, started [Byte 0x55, Byte 17, Byte 1, Fault])) = 2 \<and>
   store_writes (snd (loop_steps 30 (0, started ([Byte 0xAA, Byte 0x55, Fault] @ map Byte
      (encode \<lparr>x = 100, y = 200, w = 50, h = 60, timestamp = 1700000000000\<rparr>))))) = [] \<and>
   ser (snd (loop_steps 30 (0, started ([Byte 0xAA, Byte 0x55, Fault] @ map Byte
      (encode \<lparr>x = 100, y = 200, w = 50, h = 60, timestamp = 1700000000000\<rparr>))))) = []"
  by code_simp

subsection \<open>Disconnect\<close>




end
